theory Spec2Isabelle
  imports Complex_Main
begin

section \<open>Python values\<close>

text \<open>
  A Python \<open>str\<close> is a sequence of Unicode code points, and \<open>len\<close> counts code points,
  so a string is a list of code-point numbers. Counts (\<open>len\<close>, \<open>Counter\<close> values) are
  natural numbers. The quotient \<open>a / b\<close> of two Python integers is a float; it is modelled
  by the exact rational quotient, and it raises \<open>ZeroDivisionError\<close> when \<open>b\<close> is zero.
\<close>

type_synonym ustr = "nat list"

datatype error = ZeroDivisionError | ValueError | PicklingError

definition truediv :: "nat \<Rightarrow> nat \<Rightarrow> error + rat" where
  "truediv a b = (if b = 0 then Inl ZeroDivisionError else Inr (of_nat a / of_nat b))"

text \<open>A cell of a numpy float array: \<open>np.nan\<close> or a number.\<close>

datatype npfloat = NaN | Val rat

text \<open>\<open>np.array(xs).reshape(-1, 1)\<close>: one row of one cell for each element.\<close>

definition reshape_column :: "'a list \<Rightarrow> 'a list list" where
  "reshape_column xs = map (\<lambda>x. [x]) xs"

section \<open>collections.Counter\<close>

text \<open>
  A \<open>Counter\<close> is a dictionary from the elements to their counts, in order of first
  insertion: an association list with one entry for each key.
\<close>

fun increment :: "'a \<Rightarrow> ('a \<times> nat) list \<Rightarrow> ('a \<times> nat) list" where
  "increment k [] = [(k, 1)]"
| "increment k ((k', n) # kvs) =
     (if k = k' then (k', Suc n) # kvs else (k', n) # increment k kvs)"

definition Counter :: "'a list \<Rightarrow> ('a \<times> nat) list" where
  "Counter xs = foldl (\<lambda>c x. increment x c) [] xs"

definition dict_get :: "('a \<times> 'b) list \<Rightarrow> 'a \<Rightarrow> 'b \<Rightarrow> 'b" where
  "dict_get d k dflt = (case map_of d k of None \<Rightarrow> dflt | Some v \<Rightarrow> v)"

definition dict_values :: "('a \<times> 'b) list \<Rightarrow> 'b list" where
  "dict_values d = map snd d"

definition fromkeys :: "'a list \<Rightarrow> 'b \<Rightarrow> ('a \<times> 'b) list" where
  "fromkeys ks v = map (\<lambda>k. (k, v)) ks"

section \<open>Regular expressions of the \<open>re\<close> module\<close>

text \<open>
  The character classes \<open>\s\<close>, \<open>\d\<close>, \<open>\w\<close> and case folding come from the Unicode
  character database, which is a parameter of the matcher.
\<close>

record ucd =
  isspace :: "nat \<Rightarrow> bool"
  isdecimal :: "nat \<Rightarrow> bool"
  isalnum :: "nat \<Rightarrow> bool"
  lower :: "nat \<Rightarrow> nat"

datatype citem = Chr nat | Rng nat nat | Cat_space | Cat_digit | Cat_not_word

text \<open>
  \<open>Dot\<close> is \<open>.\<close>, \<open>In neg items\<close> is a bracketed set (\<open>neg\<close> for a leading \<open>^\<close>),
  \<open>Bound\<close> is \<open>\b\<close>, \<open>Repeat m n r\<close> is the greedy \<open>r{m,n}\<close> (no upper bound for
  \<open>None\<close>), \<open>Group\<close> is a parenthesised group.
\<close>

datatype regex =
    Dot
  | Lit nat
  | In bool "citem list"
  | Bound
  | Seq regex regex
  | Alt regex regex
  | Group regex
  | Repeat nat "nat option" regex

record pattern =
  rx :: regex
  ignorecase :: bool

definition compile :: "regex \<Rightarrow> pattern" where
  "compile r = \<lparr>rx = r, ignorecase = False\<rparr>"

definition compile_IGNORECASE :: "regex \<Rightarrow> pattern" where
  "compile_IGNORECASE r = \<lparr>rx = r, ignorecase = True\<rparr>"

definition isword :: "ucd \<Rightarrow> nat \<Rightarrow> bool" where
  "isword u c = (isalnum u c \<or> c = 95)"

text \<open>
  Under \<open>IGNORECASE\<close> the engine lowers the subject character and tests it against the
  lowered literals and ranges of the set; the categories are tested on the lowered
  character too. The engine's table of further case equivalences, a handful of characters
  outside Basic Latin and the Russian alphabet, is left out.
\<close>

fun item_has :: "ucd \<Rightarrow> bool \<Rightarrow> citem \<Rightarrow> nat \<Rightarrow> bool" where
  "item_has u ic (Chr c) ch = (if ic then lower u c = ch else c = ch)"
| "item_has u ic (Rng lo hi) ch =
     (if ic then (\<exists>k \<in> set [lo..<Suc hi]. lower u k = ch) else lo \<le> ch \<and> ch \<le> hi)"
| "item_has u ic Cat_space ch = isspace u ch"
| "item_has u ic Cat_digit ch = isdecimal u ch"
| "item_has u ic Cat_not_word ch = (\<not> isword u ch)"

definition charset :: "ucd \<Rightarrow> bool \<Rightarrow> bool \<Rightarrow> citem list \<Rightarrow> nat \<Rightarrow> bool" where
  "charset u ic neg items c =
     (let ch = (if ic then lower u c else c)
      in (\<exists>it \<in> set items. item_has u ic it ch) \<noteq> neg)"

definition at_boundary :: "ucd \<Rightarrow> ustr \<Rightarrow> nat \<Rightarrow> bool" where
  "at_boundary u s i =
     (let word_before = (0 < i \<and> i \<le> length s \<and> isword u (s ! (i - 1)));
          word_after = (i < length s \<and> isword u (s ! i))
      in word_before \<noteq> word_after)"

fun rsize :: "regex \<Rightarrow> nat" where
  "rsize (Seq a b) = Suc (rsize a + rsize b)"
| "rsize (Alt a b) = Suc (rsize a + rsize b)"
| "rsize (Group a) = Suc (rsize a)"
| "rsize (Repeat m n a) = Suc (rsize a)"
| "rsize _ = 0"

text \<open>
  \<open>ends u ic s r i\<close> lists the positions where a match of \<open>r\<close> that starts at position
  \<open>i\<close> of \<open>s\<close> can end, in the order in which the backtracking engine tries them: the
  left branch of an alternation before the right one, one more iteration of a greedy
  repetition before leaving it. The head of the list is the match the engine reports.
  An iteration that consumes nothing ends a repetition.
\<close>

function ends :: "ucd \<Rightarrow> bool \<Rightarrow> ustr \<Rightarrow> regex \<Rightarrow> nat \<Rightarrow> nat list" where
  "ends u ic s Dot i = (if i < length s \<and> s ! i \<noteq> 10 then [Suc i] else [])"
| "ends u ic s (Lit c) i =
     (if i < length s \<and> (if ic then lower u (s ! i) = lower u c else s ! i = c)
      then [Suc i] else [])"
| "ends u ic s (In neg items) i =
     (if i < length s \<and> charset u ic neg items (s ! i) then [Suc i] else [])"
| "ends u ic s Bound i = (if at_boundary u s i then [i] else [])"
| "ends u ic s (Seq a b) i = concat (map (ends u ic s b) (ends u ic s a i))"
| "ends u ic s (Alt a b) i = ends u ic s a i @ ends u ic s b i"
| "ends u ic s (Group a) i = ends u ic s a i"
| "ends u ic s (Repeat m n a) i =
     (if n = Some 0 then [i]
      else concat (map (ends u ic s (Repeat (m - 1) (map_option (\<lambda>k. k - 1) n) a))
                       (filter (\<lambda>j. i < j \<and> j \<le> length s) (ends u ic s a i)))
           @ (if m = 0 then [i] else []))"
  by pat_completeness auto
termination
  by (relation "measures [\<lambda>(u, ic, s, r, i). rsize r, \<lambda>(u, ic, s, r, i). Suc (length s) - i]")
     auto

text \<open>
  The scanner behind \<open>finditer\<close>, \<open>findall\<close> and \<open>search\<close>: the leftmost match from
  position \<open>i\<close> on, then the next one from its end; matches do not overlap. After an
  empty match the next match at the same position must not be empty. \<open>findall\<close> lists
  the matched substrings; the module only takes the length of that list, which does not
  depend on the groups of the pattern.
\<close>

function scan :: "ucd \<Rightarrow> pattern \<Rightarrow> ustr \<Rightarrow> nat \<Rightarrow> bool \<Rightarrow> (nat \<times> nat) list" where
  "scan u p s i must_advance =
     (if length s < i then []
      else case filter (\<lambda>e. \<not> (must_advance \<and> e = i)) (ends u (ignorecase p) s (rx p) i) of
             [] \<Rightarrow> scan u p s (Suc i) False
           | e # _ \<Rightarrow> (i, e) # (if i < e then scan u p s e False
                                 else if must_advance then scan u p s (Suc i) False
                                 else scan u p s i True))"
  by pat_completeness auto
termination
  by (relation "measures [\<lambda>(u, p, s, i, adv). Suc (length s) - i,
                          \<lambda>(u, p, s, i, adv). if adv then 0 else 1]")
     auto

definition finditer :: "ucd \<Rightarrow> pattern \<Rightarrow> ustr \<Rightarrow> (nat \<times> nat) list" where
  "finditer u p s = scan u p s 0 False"

definition findall :: "ucd \<Rightarrow> pattern \<Rightarrow> ustr \<Rightarrow> ustr list" where
  "findall u p s = map (\<lambda>(i, e). take (e - i) (drop i s)) (finditer u p s)"

definition search :: "ucd \<Rightarrow> pattern \<Rightarrow> ustr \<Rightarrow> (nat \<times> nat) option" where
  "search u p s = (case finditer u p s of [] \<Rightarrow> None | m # _ \<Rightarrow> Some m)"

text \<open>The character at index \<open>i\<close> of \<open>s\<close> lies inside one of the matches of \<open>p\<close>.\<close>

definition matched_at :: "ucd \<Rightarrow> pattern \<Rightarrow> ustr \<Rightarrow> nat \<Rightarrow> bool" where
  "matched_at u p s i = list_ex (\<lambda>(b, e). b \<le> i \<and> i < e) (finditer u p s)"

section \<open>ataurus/features/functions.py\<close>

subsection \<open>The compiled patterns\<close>

text \<open>
  \<open>DEFINITIVE_PUNCTS = re.compile(r"(...)|(\?!)|(\?\.{2,3})|(!\.{2,3})|(!!!)|([\<dots>.?!])")\<close>.
  The three dots of the first group are not escaped: each is the wildcard.
  Code points: \<open>?\<close> 63, \<open>!\<close> 33, \<open>.\<close> 46, the ellipsis character 8230.
\<close>

definition DEFINITIVE_PUNCTS :: pattern where
  "DEFINITIVE_PUNCTS = compile
     (Alt (Group (Seq Dot (Seq Dot Dot)))
     (Alt (Group (Seq (Lit 63) (Lit 33)))
     (Alt (Group (Seq (Lit 63) (Repeat 2 (Some 3) (Lit 46))))
     (Alt (Group (Seq (Lit 33) (Repeat 2 (Some 3) (Lit 46))))
     (Alt (Group (Seq (Lit 33) (Seq (Lit 33) (Lit 33))))
          (Group (In False [Chr 8230, Chr 46, Chr 63, Chr 33])))))))"

text \<open>
  \<open>DIVIDING_PUNCTS\<close>: comma 44, semicolon 59, colon 58, the dashes U+2011, U+2013, U+2014,
  the minus sign U+2212 and the hyphen 45.
\<close>

definition DIVIDING_PUNCTS :: pattern where
  "DIVIDING_PUNCTS = compile (In False [Chr 44, Chr 59, Chr 58, Chr 8209, Chr 8211, Chr 8212,
                                        Chr 8722, Chr 45])"

text \<open>\<open>DIGITS_PUNCTS = re.compile(r"[+$/*%^]")\<close>.\<close>

definition DIGITS_PUNCTS :: pattern where
  "DIGITS_PUNCTS = compile (In False [Chr 43, Chr 36, Chr 47, Chr 42, Chr 37, Chr 94])"

text \<open>
  \<open>FOREIGN_WORD\<close> is \<open>\b[^\s\d\W\<dots>_]+\b\<close> with \<open>IGNORECASE\<close>, where the set also
  excludes the ranges U+0430..U+044F and U+0410..U+042F and the letters U+0451 and U+0401.
\<close>

definition FOREIGN_WORD :: pattern where
  "FOREIGN_WORD = compile_IGNORECASE
     (Seq Bound
     (Seq (Repeat 1 None (In True [Cat_space, Cat_digit, Cat_not_word, Rng 1072 1103,
                                   Rng 1040 1071, Chr 1105, Chr 1025, Chr 95]))
          Bound))"

text \<open>
  The patterns that the module builds from, or takes from, code outside it:
  \<open>PUNCTUATIONS\<close> of \<open>ataurus.preparing.rules\<close>, and \<open>HIGHLIGHT_PUNCTS\<close> and
  \<open>SMILES_PUNCTS\<close>, compiled from the constants \<open>BRACKETS\<close>, \<open>QUOTES\<close> and \<open>SMILES\<close>
  of the package razdel. They are parameters of \<open>punctuations_distribution\<close>.
\<close>

record imported =
  PUNCTUATIONS :: pattern
  HIGHLIGHT_PUNCTS :: pattern
  SMILES_PUNCTS :: pattern

subsection \<open>avg_length\<close>

fun avg_length_loop :: "ustr list list \<Rightarrow> npfloat list \<Rightarrow> error + npfloat list" where
  "avg_length_loop [] result = Inr result"
| "avg_length_loop (items' # rest) result =
     (if items' = [] then avg_length_loop rest (result @ [NaN])
      else case truediv (sum_list (map length items')) (length items') of
             Inl e \<Rightarrow> Inl e
           | Inr q \<Rightarrow> avg_length_loop rest (result @ [Val q]))"

definition avg_length :: "ustr list list \<Rightarrow> error + npfloat list list" where
  "avg_length items =
     (case avg_length_loop items [] of Inl e \<Rightarrow> Inl e | Inr result \<Rightarrow> Inr (reshape_column result))"

subsection \<open>pos_distribution\<close>

text \<open>
  The morphological analyser is outside the repository: \<open>tag_POS x\<close> stands for
  \<open>morph.parse(x)[0].tag.POS\<close> (\<open>None\<close> when the token has no part of speech), and
  \<open>POS\<close> for the list of the analyser's part-of-speech labels.
\<close>

fun pos_row :: "string list \<Rightarrow> (string \<times> nat) list \<Rightarrow> nat \<Rightarrow> rat list \<Rightarrow> error + rat list" where
  "pos_row [] counter all_count result' = Inr result'"
| "pos_row (pos # rest) counter all_count result' =
     (case truediv (dict_get counter pos 0) all_count of
        Inl e \<Rightarrow> Inl e
      | Inr q \<Rightarrow> pos_row rest counter all_count (result' @ [q]))"

definition pos_tokens :: "(ustr \<Rightarrow> string option) \<Rightarrow> ustr list \<Rightarrow> string list" where
  "pos_tokens tag_POS tokens' = List.map_filter (\<lambda>pos. pos) (map tag_POS tokens')"

fun pos_loop ::
  "string list \<Rightarrow> (ustr \<Rightarrow> string option) \<Rightarrow> ustr list list \<Rightarrow> rat list list
    \<Rightarrow> error + rat list list" where
  "pos_loop POS tag_POS [] result = Inr result"
| "pos_loop POS tag_POS (tokens' # rest) result =
     (let counter = Counter (pos_tokens tag_POS tokens');
          all_count = sum_list (dict_values counter)
      in case pos_row POS counter all_count [] of
           Inl e \<Rightarrow> Inl e
         | Inr result' \<Rightarrow> pos_loop POS tag_POS rest (result @ [result']))"

definition pos_distribution ::
  "string list \<Rightarrow> (ustr \<Rightarrow> string option) \<Rightarrow> ustr list list \<Rightarrow> error + rat list list" where
  "pos_distribution POS tag_POS tokens = pos_loop POS tag_POS tokens []"

subsection \<open>foreign_words_ratio\<close>

definition foreign_words_ratio :: "ucd \<Rightarrow> ustr list \<Rightarrow> error + rat option" where
  "foreign_words_ratio u tokens =
     (if tokens = [] then Inr None
      else let foreign = filter (\<lambda>token. search u FOREIGN_WORD token \<noteq> None) tokens
           in case truediv (length foreign) (length tokens) of
                Inl e \<Rightarrow> Inl e
              | Inr q \<Rightarrow> Inr (Some q))"

subsection \<open>vocabulary_richness\<close>

text \<open>\<open>normal_form token\<close> stands for \<open>morph.parse(token)[0].normal_form\<close>.\<close>

definition vocabulary_richness :: "(ustr \<Rightarrow> ustr) \<Rightarrow> ustr list \<Rightarrow> error + rat option" where
  "vocabulary_richness normal_form tokens =
     (if tokens = [] then Inr None
      else let normal_tokens = map normal_form tokens;
               counter = Counter normal_tokens
           in case truediv (length counter) (length tokens) of
                Inl e \<Rightarrow> Inl e
              | Inr q \<Rightarrow> Inr (Some q))"

subsection \<open>punctuations_distribution\<close>

text \<open>The conditional expression \<open>n / all_count if all_count else 0\<close>.\<close>

definition ratio_if :: "nat \<Rightarrow> nat \<Rightarrow> error + rat" where
  "ratio_if n all_count = (if all_count \<noteq> 0 then truediv n all_count else Inr 0)"

text \<open>The argument is \<open>None\<close> or a string; \<open>not text\<close> holds for \<open>None\<close> and for \<open>""\<close>.\<close>

definition punctuations_distribution ::
  "ucd \<Rightarrow> imported \<Rightarrow> ustr option \<Rightarrow> error + (string \<times> rat) list" where
  "punctuations_distribution u ext text =
     (let columns = [''definitive_puncts'', ''dividing_puncts'', ''highlight_puncts'',
                     ''smiles_puncts'']
      in case text of
           None \<Rightarrow> Inr (fromkeys columns 0)
         | Some t \<Rightarrow>
             if t = [] then Inr (fromkeys columns 0)
             else
               let all_count = length (findall u (PUNCTUATIONS ext) t)
               in (case ratio_if (length (findall u DEFINITIVE_PUNCTS t)) all_count of
                     Inl e \<Rightarrow> Inl e
                   | Inr definitive \<Rightarrow>
                  (case ratio_if (length (findall u DIVIDING_PUNCTS t)) all_count of
                     Inl e \<Rightarrow> Inl e
                   | Inr dividing \<Rightarrow>
                  (case ratio_if (length (findall u (HIGHLIGHT_PUNCTS ext) t)) all_count of
                     Inl e \<Rightarrow> Inl e
                   | Inr highlight \<Rightarrow>
                  (case ratio_if (length (findall u (SMILES_PUNCTS ext) t)) all_count of
                     Inl e \<Rightarrow> Inl e
                   | Inr smiles \<Rightarrow>
                  (case ratio_if (length (findall u DIGITS_PUNCTS t)) all_count of
                     Inl e \<Rightarrow> Inl e
                   | Inr digits \<Rightarrow>
                       Inr [(''definitive_puncts'', definitive), (''dividing_puncts'', dividing),
                            (''highlight_puncts'', highlight), (''smiles_puncts'', smiles),
                            (''digits_puncts'', digits)]))))))"

section \<open>ataurus/serialize/model.py\<close>

text \<open>
  An argument of \<open>serialize_model\<close> is an instance of \<open>Model\<close> or some other object.
  The files are a map from names to contents. \<open>open(filename, 'wb')\<close> creates the file
  or empties it; \<open>pickle.dump\<close> then writes the bytes of the model, or raises.
\<close>

datatype ('m, 'o) pyobject = Model_instance 'm | Other_object 'o

type_synonym files = "string \<rightharpoonup> nat list"

definition serialize_model ::
  "('m \<Rightarrow> error + nat list) \<Rightarrow> ('m, 'o) pyobject \<Rightarrow> string \<Rightarrow> files \<Rightarrow> (error + unit) \<times> files" where
  "serialize_model dumps model filename fs =
     (case model of
        Other_object x \<Rightarrow> (Inl ValueError, fs)
      | Model_instance m \<Rightarrow>
          (let opened = fs(filename \<mapsto> [])
           in case dumps m of
                Inl e \<Rightarrow> (Inl e, opened)
              | Inr bytes \<Rightarrow> (Inr (), opened(filename \<mapsto> bytes))))"

section \<open>Data for the examples\<close>

text \<open>
  The entries of the Unicode character database for Basic Latin and for the Russian
  letters U+0410..U+044F, U+0401 and U+0451. Every other code point is entered as
  neither a letter, a digit nor a space, and without case.
\<close>

definition unicode_excerpt :: ucd where
  "unicode_excerpt =
     \<lparr>isspace = (\<lambda>c. (9 \<le> c \<and> c \<le> 13) \<or> (28 \<le> c \<and> c \<le> 32)),
      isdecimal = (\<lambda>c. 48 \<le> c \<and> c \<le> 57),
      isalnum = (\<lambda>c. (48 \<le> c \<and> c \<le> 57) \<or> (65 \<le> c \<and> c \<le> 90) \<or> (97 \<le> c \<and> c \<le> 122)
                     \<or> (1040 \<le> c \<and> c \<le> 1103) \<or> c = 1025 \<or> c = 1105),
      lower = (\<lambda>c. if (65 \<le> c \<and> c \<le> 90) \<or> (1040 \<le> c \<and> c \<le> 1071) then c + 32
                    else if c = 1025 then 1105 else c)\<rparr>"

text \<open>
  Modelled from the spec: the master punctuation pattern \<open>PUNCTUATIONS\<close> of
  \<open>ataurus.preparing.rules\<close>, a module of the repository that is not among the sources,
  and the bracket, quote and emoticon patterns taken from razdel. The spec (4.1) names
  five categories of recognised marks: definitive marks, the longest run counting once
  (an ellipsis of three dots, \<open>?!\<close>, a \<open>?\<close> or \<open>!\<close> with two or three trailing dots,
  \<open>!!!\<close>, or a single mark among \<open>.?!\<close> and the ellipsis character); the dividers;
  the brackets and quotation marks; the emoticons; the symbols \<open>+ $ / * % ^\<close>.
\<close>

definition spec_definitive :: regex where
  "spec_definitive =
     Alt (Seq (Lit 46) (Seq (Lit 46) (Lit 46)))
    (Alt (Seq (Lit 63) (Lit 33))
    (Alt (Seq (Lit 63) (Repeat 2 (Some 3) (Lit 46)))
    (Alt (Seq (Lit 33) (Repeat 2 (Some 3) (Lit 46)))
    (Alt (Seq (Lit 33) (Seq (Lit 33) (Lit 33)))
         (In False [Chr 8230, Chr 46, Chr 63, Chr 33])))))"

definition spec_highlight :: regex where
  "spec_highlight = In False [Chr 40, Chr 41, Chr 91, Chr 93, Chr 123, Chr 125, Chr 171, Chr 187,
                              Chr 8220, Chr 8221, Chr 8216, Chr 8217, Chr 8222, Chr 34, Chr 39]"

definition spec_smiles :: regex where
  "spec_smiles = Seq (In False [Chr 61, Chr 58, Chr 59])
                (Seq (Repeat 0 (Some 1) (Lit 45))
                     (Repeat 1 (Some 3) (In False [Chr 41, Chr 40])))"

definition spec_imported :: imported where
  "spec_imported =
     \<lparr>PUNCTUATIONS = compile
        (Alt spec_definitive
        (Alt (rx DIVIDING_PUNCTS)
        (Alt spec_highlight
        (Alt spec_smiles (rx DIGITS_PUNCTS))))),
      HIGHLIGHT_PUNCTS = compile spec_highlight,
      SMILES_PUNCTS = compile spec_smiles\<rparr>"

text \<open>The texts and tokens of the examples, as code points.\<close>

definition text_privet_mir :: ustr where
  \<comment> \<open>six Cyrillic letters, a comma, a space, three Cyrillic letters and \<open>!!!\<close>\<close>
  "text_privet_mir = [1055, 1088, 1080, 1074, 1077, 1090, 44, 32, 1084, 1080, 1088, 33, 33, 33]"

definition token_hello :: ustr where
  "token_hello = [104, 101, 108, 108, 111]"

definition token_mir :: ustr where
  "token_mir = [1084, 1080, 1088]"

definition text_oh_no :: ustr where
  \<comment> \<open>\<open>"Oh, no"\<close>\<close>
  "text_oh_no = [79, 104, 44, 32, 110, 111]"

definition text_a_comma_b :: ustr where
  \<comment> \<open>\<open>"a,b"\<close>\<close>
  "text_a_comma_b = [97, 44, 98]"

definition text_abc :: ustr where
  \<comment> \<open>\<open>"abc"\<close>\<close>
  "text_abc = [97, 98, 99]"

definition token_kot :: ustr where
  "token_kot = [1082, 1086, 1090]"

definition token_koty :: ustr where
  "token_koty = [1082, 1086, 1090, 1099]"

definition token_spit :: ustr where
  "token_spit = [1089, 1087, 1080, 1090]"

definition token_i :: ustr where
  "token_i = [1080]"

definition token_comma :: ustr where
  "token_comma = [44]"

text \<open>
  A stand-in for the analyser with three labels and three known words: \<open>token_kot\<close> is a
  noun, \<open>token_spit\<close> a verb, \<open>token_i\<close> a conjunction; the normal form of \<open>token_koty\<close>
  is \<open>token_kot\<close>.
\<close>

definition example_POS :: "string list" where
  "example_POS = [''NOUN'', ''VERB'', ''CONJ'']"

definition example_tag_POS :: "ustr \<Rightarrow> string option" where
  "example_tag_POS x =
     (if x = token_kot then Some ''NOUN''
      else if x = token_spit then Some ''VERB''
      else if x = token_i then Some ''CONJ''
      else None)"

definition example_normal_form :: "ustr \<Rightarrow> ustr" where
  "example_normal_form x = (if x = token_koty then token_kot else x)"

section \<open>Division\<close>

lemma truediv_pos: "0 < b \<Longrightarrow> truediv a b = Inr (of_nat a / of_nat b)"
  by (simp add: truediv_def)

lemma truediv_zero: "truediv a 0 = Inl ZeroDivisionError"
  by (simp add: truediv_def)

section \<open>avg_length\<close>

lemma avg_length_loop_eq:
  "avg_length_loop items result =
     Inr (result @ map (\<lambda>s. if s = [] then NaN
                             else Val (of_nat (sum_list (map length s)) / of_nat (length s))) items)"
proof (induction items arbitrary: result)
  case Nil
  show ?case by simp
next
  case (Cons s rest)
  show ?case
  proof (cases "s = []")
    case True
    then show ?thesis by (simp add: Cons.IH)
  next
    case False
    then have "truediv (sum_list (map length s)) (length s)
                 = Inr (of_nat (sum_list (map length s)) / of_nat (length s))"
      by (simp add: truediv_pos)
    with False show ?thesis by (simp add: Cons.IH)
  qed
qed

text \<open>
  C9. \<open>avg_length\<close> never raises and returns one row of one cell for each input
  sequence, in order: \<open>NaN\<close> for an empty sequence, otherwise the sum of the lengths of
  its elements divided by their number. For \<open>[[]]\<close> the result is \<open>[[NaN]]\<close>, for
  \<open>[["a", "bb"]]\<close> it is \<open>[[1.5]]\<close>.
\<close>

theorem avg_length_mean_or_nan:
  "avg_length items =
     Inr (map (\<lambda>s. [if s = [] then NaN
                     else Val (of_nat (sum_list (map length s)) / of_nat (length s))]) items)
   \<and> avg_length [[]] = Inr [[NaN]]
   \<and> avg_length [[[97], [98, 98]]] = Inr [[Val (3 / 2)]]"
  by (simp add: avg_length_def avg_length_loop_eq reshape_column_def comp_def)

theorem avg_length_mean_or_nan_witness:
  "avg_length [[], [[97], [98, 98]], [[]]] = Inr [[NaN], [Val (3 / 2)], [Val 0]]"
  using avg_length_mean_or_nan [of "[[], [[97], [98, 98]], [[]]]"] by simp

section \<open>Counter\<close>

lemma dict_get_increment:
  "dict_get (increment k c) k' 0 = dict_get c k' 0 + (if k' = k then 1 else 0)"
  by (induction c) (auto simp: dict_get_def)

lemma keys_increment:
  "map fst (increment k c) = (if k \<in> set (map fst c) then map fst c else map fst c @ [k])"
proof (induction c)
  case Nil
  show ?case by simp
next
  case (Cons kv c)
  obtain k' n where kv: "kv = (k', n)" by (cases kv)
  show ?case
  proof (cases "k = k'")
    case True
    then show ?thesis by (simp add: kv)
  next
    case False
    then show ?thesis using Cons.IH by (simp add: kv)
  qed
qed

lemma values_increment: "sum_list (dict_values (increment k c)) = Suc (sum_list (dict_values c))"
  by (induction c) (auto simp: dict_values_def)

lemma dict_get_fold:
  "dict_get (foldl (\<lambda>c x. increment x c) c xs) k 0 = dict_get c k 0 + count_list xs k"
  by (induction xs arbitrary: c) (auto simp: dict_get_increment)

lemma values_fold:
  "sum_list (dict_values (foldl (\<lambda>c x. increment x c) c xs)) = sum_list (dict_values c) + length xs"
  by (induction xs arbitrary: c) (auto simp: values_increment)

lemma keys_fold:
  "distinct (map fst c) \<Longrightarrow>
   distinct (map fst (foldl (\<lambda>c x. increment x c) c xs))
   \<and> set (map fst (foldl (\<lambda>c x. increment x c) c xs)) = set (map fst c) \<union> set xs"
proof (induction xs arbitrary: c)
  case Nil
  then show ?case by simp
next
  case (Cons x xs)
  have d: "distinct (map fst (increment x c))"
    using Cons.prems by (simp add: keys_increment)
  have s: "set (map fst (increment x c)) = insert x (set (map fst c))"
    by (auto simp: keys_increment)
  show ?case using Cons.IH [OF d] s by simp
qed

lemma Counter_get: "dict_get (Counter xs) k 0 = count_list xs k"
  using dict_get_fold [of "[]" xs k] by (simp add: Counter_def dict_get_def)

lemma Counter_total: "sum_list (dict_values (Counter xs)) = length xs"
  using values_fold [of "[]" xs] by (simp add: Counter_def dict_values_def)

lemma Counter_len: "length (Counter xs) = card (set xs)"
proof -
  have "distinct (map fst (Counter xs)) \<and> set (map fst (Counter xs)) = set xs"
    using keys_fold [of "[]" xs] by (simp add: Counter_def)
  then have "card (set xs) = length (map fst (Counter xs))"
    using distinct_card [of "map fst (Counter xs)"] by simp
  then show ?thesis by simp
qed

lemma sum_count_distinct:
  "distinct ps \<Longrightarrow> set xs \<subseteq> set ps \<Longrightarrow> sum_list (map (count_list xs) ps) = length xs"
proof -
  assume d: "distinct ps" and s: "set xs \<subseteq> set ps"
  have "sum_list (map (count_list xs) ps) = sum (count_list xs) (set ps)"
    using d by (simp add: sum_list_distinct_conv_sum_set)
  also have "\<dots> = length xs"
    using s by (simp add: sum_count_set)
  finally show ?thesis .
qed

lemma pos_row_pos:
  "0 < n \<Longrightarrow> pos_row ps counter n acc
       = Inr (acc @ map (\<lambda>p. of_nat (dict_get counter p 0) / of_nat n) ps)"
  by (induction ps arbitrary: acc) (auto simp: truediv_pos)

lemma pos_row_zero: "ps \<noteq> [] \<Longrightarrow> pos_row ps counter 0 acc = Inl ZeroDivisionError"
  by (cases ps) (auto simp: truediv_zero)


section \<open>pos_distribution\<close>

lemma pos_tokens_count:
  "count_list (pos_tokens tag t) p = length (filter (\<lambda>x. tag x = Some p) t)"
  by (induction t) (auto simp: pos_tokens_def map_filter_simps split: option.splits)

lemma pos_tokens_length:
  "length (pos_tokens tag t) = length (filter (\<lambda>x. tag x \<noteq> None) t)"
  by (induction t) (auto simp: pos_tokens_def map_filter_simps split: option.splits)

lemma pos_tokens_set: "p \<in> set (pos_tokens tag t) \<longleftrightarrow> (\<exists>x \<in> set t. tag x = Some p)"
  by (induction t) (auto simp: pos_tokens_def map_filter_simps split: option.splits)

lemma pos_tokens_Nil: "pos_tokens tag t = [] \<longleftrightarrow> (\<forall>x \<in> set t. tag x = None)"
  by (induction t) (auto simp: pos_tokens_def map_filter_simps split: option.splits)

lemma pos_loop_ok:
  "\<forall>t \<in> set tokens. pos_tokens tag t \<noteq> [] \<Longrightarrow>
   pos_loop POS tag tokens acc
     = Inr (acc @ map (\<lambda>t. map (\<lambda>p. of_nat (count_list (pos_tokens tag t) p)
                                        / of_nat (length (pos_tokens tag t))) POS) tokens)"
proof (induction tokens arbitrary: acc)
  case Nil
  then show ?case by simp
next
  case (Cons t rest)
  then have "0 < length (pos_tokens tag t)" by simp
  then show ?case using Cons
    by (simp add: Counter_total Counter_get pos_row_pos)
qed

lemma pos_loop_raises:
  "POS \<noteq> [] \<Longrightarrow> \<exists>t \<in> set tokens. pos_tokens tag t = [] \<Longrightarrow>
   pos_loop POS tag tokens acc = Inl ZeroDivisionError"
proof (induction tokens arbitrary: acc)
  case Nil
  then show ?case by simp
next
  case (Cons t rest)
  show ?case
  proof (cases "pos_tokens tag t = []")
    case True
    then show ?thesis using Cons.prems(1) by (simp add: Counter_total pos_row_zero)
  next
    case False
    then have "\<exists>t \<in> set rest. pos_tokens tag t = []" using Cons.prems(2) by auto
    then show ?thesis using False Cons.IH Cons.prems(1)
      by (simp add: Counter_total Counter_get pos_row_pos)
  qed
qed

lemma row_sum:
  assumes "distinct POS" "set xs \<subseteq> set POS" "xs \<noteq> []"
  shows "sum_list (map (\<lambda>p. (of_nat (count_list xs p) :: rat) / of_nat (length xs)) POS) = 1"
proof -
  have "sum_list (map (\<lambda>p. (of_nat (count_list xs p) :: rat) / of_nat (length xs)) POS)
          = (\<Sum>p\<leftarrow>POS. of_nat (count_list xs p)) / of_nat (length xs)"
    by (induction POS) (auto simp: add_divide_distrib)
  also have "(\<Sum>p\<leftarrow>POS. (of_nat (count_list xs p) :: rat)) = of_nat (sum_list (map (count_list xs) POS))"
    by (induction POS) auto
  also have "sum_list (map (count_list xs) POS) = length xs"
    using assms by (simp add: sum_count_distinct)
  finally show ?thesis using assms(3) by simp
qed

text \<open>
  C1. The specification says that a text without any token of resolvable part of speech
  gets a row of missing-value sentinels and that no division fault escapes. The code
  divides by the number of resolved tokens without a guard: with a non-empty list of
  labels, a batch that holds such a text (the text without tokens included) makes
  \<open>pos_distribution\<close> raise \<open>ZeroDivisionError\<close>, and no row is
  returned for any text of the batch.
\<close>

theorem pos_distribution_zero_resolvable_raises:
  assumes "POS \<noteq> []"
    and "\<exists>t \<in> set tokens. \<forall>x \<in> set t. tag_POS x = None"
  shows "pos_distribution POS tag_POS tokens = Inl ZeroDivisionError"
proof -
  have "\<exists>t \<in> set tokens. pos_tokens tag_POS t = []"
    using assms(2) by (simp add: pos_tokens_Nil)
  with assms(1) show ?thesis
    unfolding pos_distribution_def by (rule pos_loop_raises)
qed

theorem pos_distribution_zero_resolvable_raises_witness:
  "pos_distribution example_POS example_tag_POS [[token_kot], [token_comma]] = Inl ZeroDivisionError
   \<and> pos_distribution example_POS example_tag_POS [[]] = Inl ZeroDivisionError"
proof -
  have p: "example_POS \<noteq> []" by (simp add: example_POS_def)
  have c: "example_tag_POS token_comma = None"
    by (simp add: example_tag_POS_def token_comma_def token_kot_def token_spit_def token_i_def)
  have a: "\<exists>t \<in> set [[token_kot], [token_comma]]. \<forall>x \<in> set t. example_tag_POS x = None"
    using c by simp
  have b: "\<exists>t \<in> set [[]]. \<forall>x \<in> set t. example_tag_POS x = None"
    by simp
  show ?thesis
    using pos_distribution_zero_resolvable_raises [OF p a]
          pos_distribution_zero_resolvable_raises [OF p b] by simp
qed

text \<open>
  What the code does on a batch without a degenerate text: when the labels of \<open>POS\<close> are
  distinct and every text of the batch has at least one token with a resolvable part of
  speech, all resolved labels lying in \<open>POS\<close>, \<open>pos_distribution\<close> returns one row for
  each text and one cell for each label: the number of tokens of the text resolved to
  that label, divided by the number of tokens of the text with a resolvable part of
  speech. In exact arithmetic the cells of each row sum to 1; the sum of the rounded
  float quotients can differ from 1 in the last digit.
\<close>

lemma pos_distribution_cells:
  assumes "distinct POS"
    and "\<forall>t \<in> set tokens. (\<exists>x \<in> set t. tag_POS x \<noteq> None)
                           \<and> (\<forall>x \<in> set t. \<forall>p. tag_POS x = Some p \<longrightarrow> p \<in> set POS)"
  shows "\<exists>rows. pos_distribution POS tag_POS tokens = Inr rows
           \<and> length rows = length tokens
           \<and> (\<forall>i < length tokens.
                 length (rows ! i) = length POS
               \<and> (\<forall>j < length POS.
                     rows ! i ! j
                       = of_nat (length (filter (\<lambda>x. tag_POS x = Some (POS ! j)) (tokens ! i)))
                         / of_nat (length (filter (\<lambda>x. tag_POS x \<noteq> None) (tokens ! i))))
               \<and> sum_list (rows ! i) = 1)"
proof -
  let ?row = "\<lambda>t. map (\<lambda>p. (of_nat (count_list (pos_tokens tag_POS t) p) :: rat)
                              / of_nat (length (pos_tokens tag_POS t))) POS"
  have ne: "\<forall>t \<in> set tokens. pos_tokens tag_POS t \<noteq> []"
    using assms(2) by (auto simp: pos_tokens_Nil)
  have res: "pos_distribution POS tag_POS tokens = Inr (map ?row tokens)"
    unfolding pos_distribution_def using pos_loop_ok [OF ne, of POS "[]"] by simp
  have rows: "length (map ?row tokens ! i) = length POS
               \<and> (\<forall>j < length POS.
                     map ?row tokens ! i ! j
                       = of_nat (length (filter (\<lambda>x. tag_POS x = Some (POS ! j)) (tokens ! i)))
                         / of_nat (length (filter (\<lambda>x. tag_POS x \<noteq> None) (tokens ! i))))
               \<and> sum_list (map ?row tokens ! i) = 1"
    if i: "i < length tokens" for i
  proof -
    have mem: "tokens ! i \<in> set tokens" using i by simp
    have n: "pos_tokens tag_POS (tokens ! i) \<noteq> []" using ne mem by blast
    have sub: "set (pos_tokens tag_POS (tokens ! i)) \<subseteq> set POS"
      using assms(2) mem by (auto simp: pos_tokens_set)
    have "sum_list (?row (tokens ! i)) = 1"
      using row_sum [OF assms(1) sub n] .
    then show ?thesis
      using i by (simp add: pos_tokens_count pos_tokens_length)
  qed
  show ?thesis
    using res rows by (intro exI [of _ "map ?row tokens"]) simp
qed

lemma pos_distribution_cells_example:
  "\<exists>rows. pos_distribution example_POS example_tag_POS
             [[token_kot, token_comma, token_spit], [token_i]] = Inr rows
     \<and> length rows = 2 \<and> length (rows ! 0) = 3
     \<and> rows ! 0 ! 0 = 1 / 2 \<and> rows ! 1 ! 2 = 1
     \<and> sum_list (rows ! 0) = 1 \<and> sum_list (rows ! 1) = 1"
proof -
  let ?tokens = "[[token_kot, token_comma, token_spit], [token_i]]"
  have d: "distinct example_POS" by (simp add: example_POS_def)
  have tags: "example_tag_POS token_kot = Some ''NOUN''" "example_tag_POS token_comma = None"
    "example_tag_POS token_spit = Some ''VERB''" "example_tag_POS token_i = Some ''CONJ''"
    by (simp_all add: example_tag_POS_def token_comma_def token_kot_def token_spit_def token_i_def)
  have h: "\<forall>t \<in> set ?tokens. (\<exists>x \<in> set t. example_tag_POS x \<noteq> None)
             \<and> (\<forall>x \<in> set t. \<forall>p. example_tag_POS x = Some p \<longrightarrow> p \<in> set example_POS)"
    using tags by (simp add: example_POS_def)
  obtain rows where r: "pos_distribution example_POS example_tag_POS ?tokens = Inr rows"
    "length rows = length ?tokens"
    "\<forall>i < length ?tokens.
        length (rows ! i) = length example_POS
      \<and> (\<forall>j < length example_POS.
            rows ! i ! j
              = of_nat (length (filter (\<lambda>x. example_tag_POS x = Some (example_POS ! j)) (?tokens ! i)))
                / of_nat (length (filter (\<lambda>x. example_tag_POS x \<noteq> None) (?tokens ! i))))
      \<and> sum_list (rows ! i) = 1"
    using pos_distribution_cells [OF d h] by blast
  have r0: "length (rows ! 0) = length example_POS
      \<and> (\<forall>j < length example_POS.
            rows ! 0 ! j
              = of_nat (length (filter (\<lambda>x. example_tag_POS x = Some (example_POS ! j)) (?tokens ! 0)))
                / of_nat (length (filter (\<lambda>x. example_tag_POS x \<noteq> None) (?tokens ! 0))))
      \<and> sum_list (rows ! 0) = 1"
    using r(3) by simp
  have r1: "length (rows ! 1) = length example_POS
      \<and> (\<forall>j < length example_POS.
            rows ! 1 ! j
              = of_nat (length (filter (\<lambda>x. example_tag_POS x = Some (example_POS ! j)) (?tokens ! 1)))
                / of_nat (length (filter (\<lambda>x. example_tag_POS x \<noteq> None) (?tokens ! 1))))
      \<and> sum_list (rows ! 1) = 1"
    using r(3) by simp
  have c00: "rows ! 0 ! 0 = 1 / 2"
    using r0 tags by (simp add: example_POS_def)
  have c12: "rows ! 1 ! 2 = 1"
    using r1 tags by (simp add: example_POS_def)
  have l0: "length (rows ! 0) = 3" using r0 by (simp add: example_POS_def)
  have s0: "sum_list (rows ! 0) = 1" using r0 by simp
  have s1: "sum_list (rows ! 1) = 1" using r1 by simp
  have l: "length rows = 2" using r(2) by simp
  show ?thesis
    using r(1) l l0 c00 c12 s0 s1 by blast
qed

text \<open>
  C6. The specification says that every text with at least one token of resolvable part
  of speech gets a row of quotients, whatever else the batch holds. In the code the
  rows of a batch are returned together or not at all: when the list of labels is not
  empty and the batch also holds a text without any resolvable token, the call raises
  \<open>ZeroDivisionError\<close> and the text with resolvable tokens gets no row, although the
  same text in a batch of its own gets one cell for each label.
\<close>

theorem pos_distribution_mixed_batch_no_row:
  assumes "POS \<noteq> []"
    and "i < length tokens" and "\<exists>x \<in> set (tokens ! i). tag_POS x \<noteq> None"
    and "j < length tokens" and "\<forall>x \<in> set (tokens ! j). tag_POS x = None"
  shows "pos_distribution POS tag_POS tokens = Inl ZeroDivisionError
       \<and> \<not> (\<exists>rows. pos_distribution POS tag_POS tokens = Inr rows)
       \<and> (\<exists>row. pos_distribution POS tag_POS [tokens ! i] = Inr [row]
                \<and> length row = length POS)"
proof -
  have "tokens ! j \<in> set tokens" using assms(4) by simp
  then have "\<exists>t \<in> set tokens. pos_tokens tag_POS t = []"
    using assms(5) pos_tokens_Nil [of tag_POS "tokens ! j"] by blast
  then have raises: "pos_distribution POS tag_POS tokens = Inl ZeroDivisionError"
    unfolding pos_distribution_def using assms(1) by (simp add: pos_loop_raises)
  have "pos_tokens tag_POS (tokens ! i) \<noteq> []"
    using assms(3) by (simp add: pos_tokens_Nil)
  then have "\<forall>t \<in> set [tokens ! i]. pos_tokens tag_POS t \<noteq> []" by simp
  then have alone: "\<exists>row. pos_distribution POS tag_POS [tokens ! i] = Inr [row]
                        \<and> length row = length POS"
    unfolding pos_distribution_def using pos_loop_ok [of "[tokens ! i]" tag_POS POS "[]"]
    by simp
  show ?thesis using raises alone by simp
qed

theorem pos_distribution_mixed_batch_no_row_witness:
  "pos_distribution example_POS example_tag_POS
     [[token_kot, token_comma, token_spit], [token_comma]] = Inl ZeroDivisionError
   \<and> (\<exists>row. pos_distribution example_POS example_tag_POS
                [[token_kot, token_comma, token_spit]] = Inr [row]
            \<and> length row = 3)"
proof -
  let ?tokens = "[[token_kot, token_comma, token_spit], [token_comma]]"
  have p: "example_POS \<noteq> []" by (simp add: example_POS_def)
  have tags: "example_tag_POS token_kot = Some ''NOUN''" "example_tag_POS token_comma = None"
    by (simp_all add: example_tag_POS_def token_comma_def token_kot_def token_spit_def
        token_i_def)
  have i: "(0 :: nat) < length ?tokens" by simp
  have ri: "\<exists>x \<in> set (?tokens ! 0). example_tag_POS x \<noteq> None" using tags by simp
  have j: "(1 :: nat) < length ?tokens" by simp
  have rj: "\<forall>x \<in> set (?tokens ! 1). example_tag_POS x = None" using tags by simp
  show ?thesis
    using pos_distribution_mixed_batch_no_row [OF p i ri j rj]
    by (auto simp: example_POS_def numeral_3_eq_3)
qed

section \<open>vocabulary_richness\<close>

text \<open>
  C7. For the empty token list \<open>vocabulary_richness\<close> returns \<open>None\<close>. For a non-empty
  list it returns the number of distinct normal forms divided by the number of tokens;
  the value is greater than 0 and at most 1, and it is 1 exactly when the normal forms
  of the tokens are pairwise distinct.
\<close>

theorem vocabulary_richness_type_token_ratio:
  "vocabulary_richness normal_form [] = Inr None
   \<and> (tokens \<noteq> [] \<longrightarrow>
        (\<exists>r. vocabulary_richness normal_form tokens = Inr (Some r)
            \<and> r = of_nat (card (set (map normal_form tokens))) / of_nat (length tokens)
            \<and> 0 < r \<and> r \<le> 1
            \<and> (r = 1 \<longleftrightarrow> distinct (map normal_form tokens))))"
proof (intro conjI impI)
  show "vocabulary_richness normal_form [] = Inr None"
    by (simp add: vocabulary_richness_def)
next
  assume ne: "tokens \<noteq> []"
  let ?k = "card (set (map normal_form tokens))"
  let ?n = "length tokens"
  let ?r = "(of_nat ?k :: rat) / of_nat ?n"
  have n: "0 < ?n" using ne by simp
  have res: "vocabulary_richness normal_form tokens = Inr (Some ?r)"
    using ne n by (simp add: vocabulary_richness_def Counter_len truediv_pos)
  have k_le: "?k \<le> ?n"
    using card_length [of "map normal_form tokens"] by simp
  have k_pos: "0 < ?k"
    using ne by (simp add: card_gt_0_iff)
  have pos: "0 < ?r" using k_pos n by simp
  have le: "?r \<le> 1" using k_le n by simp
  have "?r = 1 \<longleftrightarrow> ?k = ?n" using n by auto
  also have "\<dots> \<longleftrightarrow> distinct (map normal_form tokens)"
    using card_distinct [of "map normal_form tokens"] distinct_card [of "map normal_form tokens"]
    by auto
  finally have one: "?r = 1 \<longleftrightarrow> distinct (map normal_form tokens)" .
  show "\<exists>r. vocabulary_richness normal_form tokens = Inr (Some r)
            \<and> r = of_nat (card (set (map normal_form tokens))) / of_nat (length tokens)
            \<and> 0 < r \<and> r \<le> 1
            \<and> (r = 1 \<longleftrightarrow> distinct (map normal_form tokens))"
    using res pos le one by blast
qed

theorem vocabulary_richness_type_token_ratio_witness:
  "vocabulary_richness example_normal_form [token_kot, token_koty] = Inr (Some (1 / 2))
   \<and> vocabulary_richness example_normal_form [token_kot, token_spit] = Inr (Some 1)"
proof -
  have nf: "example_normal_form token_kot = token_kot" "example_normal_form token_koty = token_kot"
    "example_normal_form token_spit = token_spit" "token_kot \<noteq> token_spit"
    by (simp_all add: example_normal_form_def token_kot_def token_koty_def token_spit_def)
  show ?thesis
    using vocabulary_richness_type_token_ratio [of example_normal_form "[token_kot, token_koty]"]
          vocabulary_richness_type_token_ratio [of example_normal_form "[token_kot, token_spit]"]
          nf
    by auto
qed

section \<open>Evaluating patterns\<close>

lemmas re_eval = finditer_def findall_def search_def matched_at_def compile_def
  compile_IGNORECASE_def charset_def at_boundary_def isword_def

section \<open>foreign_words_ratio\<close>

lemma search_hello: "search unicode_excerpt FOREIGN_WORD token_hello = Some (0, 5)"
  by (simp add: re_eval unicode_excerpt_def FOREIGN_WORD_def token_hello_def)

lemma search_mir: "search unicode_excerpt FOREIGN_WORD token_mir = None"
  by (simp add: re_eval unicode_excerpt_def FOREIGN_WORD_def token_mir_def)

text \<open>
  C8. \<open>foreign_words_ratio\<close> returns \<open>None\<close> exactly for the empty token list.
  Otherwise it returns the number of tokens in which the foreign-word pattern is found,
  divided by the number of tokens, a value between 0 and 1. For the tokens \<open>hello\<close> and
  the Cyrillic \<open>token_mir\<close> the result is 0.5.
\<close>

theorem foreign_words_ratio_range:
  "(foreign_words_ratio u tokens = Inr None \<longleftrightarrow> tokens = [])
   \<and> (\<exists>res. foreign_words_ratio u tokens = Inr res
          \<and> (\<forall>r. res = Some r \<longrightarrow>
                 r = of_nat (length (filter (\<lambda>token. search u FOREIGN_WORD token \<noteq> None) tokens))
                     / of_nat (length tokens)
               \<and> 0 \<le> r \<and> r \<le> 1))
   \<and> foreign_words_ratio unicode_excerpt [token_hello, token_mir] = Inr (Some (1 / 2))"
proof (intro conjI)
  show "foreign_words_ratio u tokens = Inr None \<longleftrightarrow> tokens = []"
    by (simp add: foreign_words_ratio_def truediv_def)
next
  let ?k = "length (filter (\<lambda>token. search u FOREIGN_WORD token \<noteq> None) tokens)"
  have k: "?k \<le> length tokens" by (rule length_filter_le)
  show "\<exists>res. foreign_words_ratio u tokens = Inr res
          \<and> (\<forall>r. res = Some r \<longrightarrow>
                 r = of_nat ?k / of_nat (length tokens) \<and> 0 \<le> r \<and> r \<le> 1)"
  proof (cases "tokens = []")
    case True
    then show ?thesis by (simp add: foreign_words_ratio_def)
  next
    case False
    then have n: "0 < length tokens" by simp
    have "(of_nat ?k :: rat) / of_nat (length tokens) \<le> 1"
      using k n by simp
    then show ?thesis
      using False n by (simp add: foreign_words_ratio_def truediv_pos)
  qed
next
  show "foreign_words_ratio unicode_excerpt [token_hello, token_mir] = Inr (Some (1 / 2))"
    by (simp add: foreign_words_ratio_def search_hello search_mir truediv_def)
qed

theorem foreign_words_ratio_range_witness:
  "\<exists>r. foreign_words_ratio unicode_excerpt [token_hello, token_hello, token_mir] = Inr (Some r)
      \<and> r = 2 / 3 \<and> 0 \<le> r \<and> r \<le> 1"
proof -
  obtain res where res: "foreign_words_ratio unicode_excerpt [token_hello, token_hello, token_mir] = Inr res"
    and val: "\<forall>r. res = Some r \<longrightarrow>
                 r = of_nat (length (filter (\<lambda>token. search unicode_excerpt FOREIGN_WORD token \<noteq> None)
                                       [token_hello, token_hello, token_mir]))
                     / of_nat (length [token_hello, token_hello, token_mir])
               \<and> 0 \<le> r \<and> r \<le> 1"
    using foreign_words_ratio_range [of unicode_excerpt "[token_hello, token_hello, token_mir]"]
    by blast
  have "res \<noteq> None"
    using res foreign_words_ratio_range [of unicode_excerpt "[token_hello, token_hello, token_mir]"]
    by auto
  then obtain r where r: "res = Some r" by auto
  have "r = 2 / 3 \<and> 0 \<le> r \<and> r \<le> 1"
    using val r by (simp add: search_hello search_mir)
  then show ?thesis using res r by blast
qed

section \<open>punctuations_distribution\<close>

lemma ratio_if_eq: "ratio_if k n = Inr (if n = 0 then 0 else of_nat k / of_nat n)"
  by (simp add: ratio_if_def truediv_def)

lemma punctuations_distribution_nonempty:
  "t \<noteq> [] \<Longrightarrow>
   punctuations_distribution u ext (Some t) =
     (let n = length (findall u (PUNCTUATIONS ext) t);
          frac = (\<lambda>k. if n = 0 then 0 else of_nat k / of_nat n)
      in Inr [(''definitive_puncts'', frac (length (findall u DEFINITIVE_PUNCTS t))),
              (''dividing_puncts'', frac (length (findall u DIVIDING_PUNCTS t))),
              (''highlight_puncts'', frac (length (findall u (HIGHLIGHT_PUNCTS ext) t))),
              (''smiles_puncts'', frac (length (findall u (SMILES_PUNCTS ext) t))),
              (''digits_puncts'', frac (length (findall u DIGITS_PUNCTS t)))])"
  by (simp add: punctuations_distribution_def ratio_if_eq Let_def)

lemma definitive_privet_mir: "length (findall u DEFINITIVE_PUNCTS text_privet_mir) = 6"
  by (simp add: re_eval DEFINITIVE_PUNCTS_def text_privet_mir_def)

lemma dividing_privet_mir: "length (findall u DIVIDING_PUNCTS text_privet_mir) = 1"
  by (simp add: re_eval DIVIDING_PUNCTS_def text_privet_mir_def)

lemma master_privet_mir:
  "length (findall unicode_excerpt (PUNCTUATIONS spec_imported) text_privet_mir) = 2"
  by (simp add: re_eval spec_imported_def spec_definitive_def spec_highlight_def spec_smiles_def
      DIVIDING_PUNCTS_def DIGITS_PUNCTS_def text_privet_mir_def)

lemma spans_privet_mir:
  "finditer u DEFINITIVE_PUNCTS text_privet_mir = [(0, 3), (3, 6), (6, 9), (9, 12), (12, 13), (13, 14)]"
  by (simp add: re_eval DEFINITIVE_PUNCTS_def text_privet_mir_def)

text \<open>
  C2. The specification says that a run of definitive marks counts once, so that the
  example text \<open>text_privet_mir\<close>, with two recognised marks, has the
  definitive ratio 0.5 and the dividing ratio 0.5. In the code the first alternative of
  \<open>DEFINITIVE_PUNCTS\<close> matches any three characters: the pattern has six
  matches in the text (four groups of three characters, letters, comma and space
  among them, and the last two exclamation marks one by one), and with two recognised
  marks the definitive ratio is 3. The dividing ratio is 0.5.
\<close>

theorem definitive_run_not_counted_once:
  assumes "length (findall u (PUNCTUATIONS ext) text_privet_mir) = 2"
  shows "finditer u DEFINITIVE_PUNCTS text_privet_mir
           = [(0, 3), (3, 6), (6, 9), (9, 12), (12, 13), (13, 14)]
       \<and> (\<exists>d. punctuations_distribution u ext (Some text_privet_mir) = Inr d
             \<and> map_of d ''definitive_puncts'' = Some 3
             \<and> map_of d ''dividing_puncts'' = Some (1 / 2))"
proof -
  have ne: "text_privet_mir \<noteq> []" by (simp add: text_privet_mir_def)
  show ?thesis
    using assms
    by (simp add: punctuations_distribution_nonempty [OF ne] spans_privet_mir
        definitive_privet_mir dividing_privet_mir)
qed

theorem definitive_run_not_counted_once_witness:
  "\<exists>d. punctuations_distribution unicode_excerpt spec_imported (Some text_privet_mir) = Inr d
      \<and> map_of d ''definitive_puncts'' = Some 3
      \<and> map_of d ''dividing_puncts'' = Some (1 / 2)"
  using definitive_run_not_counted_once [OF master_privet_mir] by blast

lemma definitive_oh_no: "length (findall u DEFINITIVE_PUNCTS text_oh_no) = 2"
  by (simp add: re_eval DEFINITIVE_PUNCTS_def text_oh_no_def)

lemma master_oh_no:
  "length (findall unicode_excerpt (PUNCTUATIONS spec_imported) text_oh_no) = 1"
  by (simp add: re_eval spec_imported_def spec_definitive_def spec_highlight_def spec_smiles_def
      DIVIDING_PUNCTS_def DIGITS_PUNCTS_def text_oh_no_def)

text \<open>
  C4. The specification says that every category ratio lies between 0 and 1. In the code
  the definitive ratio exceeds 1: for \<open>text_privet_mir\<close> whenever the master
  pattern recognises between one and five marks, and for the text \<open>"Oh,
  no"\<close>, whose only mark is a comma, the definitive ratio is 2.
\<close>

theorem definitive_ratio_exceeds_one:
  "(0 < length (findall u (PUNCTUATIONS ext) text_privet_mir)
      \<and> length (findall u (PUNCTUATIONS ext) text_privet_mir) < 6 \<longrightarrow>
      (\<exists>d r. punctuations_distribution u ext (Some text_privet_mir) = Inr d
           \<and> map_of d ''definitive_puncts'' = Some r \<and> 1 < r))
   \<and> (length (findall u (PUNCTUATIONS ext) text_oh_no) = 1 \<longrightarrow>
      (\<exists>d. punctuations_distribution u ext (Some text_oh_no) = Inr d
           \<and> map_of d ''definitive_puncts'' = Some 2))"
proof (intro conjI impI)
  let ?n = "length (findall u (PUNCTUATIONS ext) text_privet_mir)"
  assume n: "0 < ?n \<and> ?n < 6"
  have ne: "text_privet_mir \<noteq> []" by (simp add: text_privet_mir_def)
  have "(1 :: rat) < 6 / of_nat ?n"
    using n by simp
  then show "\<exists>d r. punctuations_distribution u ext (Some text_privet_mir) = Inr d
           \<and> map_of d ''definitive_puncts'' = Some r \<and> 1 < r"
    using n by (simp add: punctuations_distribution_nonempty [OF ne] definitive_privet_mir Let_def)
next
  assume n: "length (findall u (PUNCTUATIONS ext) text_oh_no) = 1"
  have ne: "text_oh_no \<noteq> []" by (simp add: text_oh_no_def)
  show "\<exists>d. punctuations_distribution u ext (Some text_oh_no) = Inr d
           \<and> map_of d ''definitive_puncts'' = Some 2"
    using n by (simp add: punctuations_distribution_nonempty [OF ne] definitive_oh_no)
qed

theorem definitive_ratio_exceeds_one_witness:
  "(\<exists>d r. punctuations_distribution unicode_excerpt spec_imported (Some text_privet_mir) = Inr d
        \<and> map_of d ''definitive_puncts'' = Some r \<and> 1 < r)
   \<and> (\<exists>d. punctuations_distribution unicode_excerpt spec_imported (Some text_oh_no) = Inr d
        \<and> map_of d ''definitive_puncts'' = Some 2)"
  using definitive_ratio_exceeds_one [of unicode_excerpt spec_imported]
  by (simp add: master_privet_mir master_oh_no)

text \<open>
  C3. The specification says that a text without recognised punctuation gets 0 for every
  category and that the empty text gets the same result. In the code a non-empty text
  without recognised punctuation gets all five categories with 0, and nothing is raised;
  for \<open>None\<close> and for the empty string the result has four categories only:
  the key \<open>digits_puncts\<close> is missing.
\<close>

theorem empty_text_lacks_digits_puncts:
  "punctuations_distribution u ext None
     = Inr [(''definitive_puncts'', 0), (''dividing_puncts'', 0), (''highlight_puncts'', 0),
            (''smiles_puncts'', 0)]
   \<and> punctuations_distribution u ext (Some [])
     = Inr [(''definitive_puncts'', 0), (''dividing_puncts'', 0), (''highlight_puncts'', 0),
            (''smiles_puncts'', 0)]
   \<and> (t \<noteq> [] \<and> findall u (PUNCTUATIONS ext) t = [] \<longrightarrow>
        punctuations_distribution u ext (Some t)
          = Inr [(''definitive_puncts'', 0), (''dividing_puncts'', 0), (''highlight_puncts'', 0),
                 (''smiles_puncts'', 0), (''digits_puncts'', 0)])"
  by (simp add: punctuations_distribution_nonempty)
     (simp add: punctuations_distribution_def fromkeys_def)

lemma master_abc: "findall unicode_excerpt (PUNCTUATIONS spec_imported) text_abc = []"
  by (simp add: re_eval spec_imported_def spec_definitive_def spec_highlight_def spec_smiles_def
      DIVIDING_PUNCTS_def DIGITS_PUNCTS_def text_abc_def)

theorem empty_text_lacks_digits_puncts_witness:
  "map_of (projr (punctuations_distribution unicode_excerpt spec_imported (Some text_abc)))
          ''digits_puncts'' = Some 0
   \<and> map_of (projr (punctuations_distribution unicode_excerpt spec_imported (Some [])))
          ''digits_puncts'' = None"
proof -
  have ne: "text_abc \<noteq> []" by (simp add: text_abc_def)
  show ?thesis
    using empty_text_lacks_digits_puncts [of unicode_excerpt spec_imported text_abc] ne master_abc
    by simp
qed

text \<open>
  C5. The specification says that no character is matched by two category patterns. In
  the text \<open>"a,b"\<close> the comma lies inside a match of
  \<open>DEFINITIVE_PUNCTS\<close> and inside a match of \<open>DIVIDING_PUNCTS\<close>.
\<close>

theorem comma_matched_by_two_categories:
  "text_a_comma_b ! 1 = 44
   \<and> matched_at u DEFINITIVE_PUNCTS text_a_comma_b 1
   \<and> matched_at u DIVIDING_PUNCTS text_a_comma_b 1"
  by (simp add: re_eval DEFINITIVE_PUNCTS_def DIVIDING_PUNCTS_def text_a_comma_b_def)

section \<open>serialize_model\<close>

text \<open>
  C10. For an argument that is not an instance of \<open>Model\<close>, \<open>serialize_model\<close> raises
  \<open>ValueError\<close> and leaves every file as it was: the check comes before the file is
  opened.
\<close>

theorem serialize_model_rejects_non_model:
  assumes "\<forall>m. model \<noteq> Model_instance m"
  shows "serialize_model dumps model filename fs = (Inl ValueError, fs)"
  using assms by (cases model) (simp_all add: serialize_model_def)

theorem serialize_model_rejects_non_model_witness:
  "serialize_model (\<lambda>m :: nat. Inr [m]) (Other_object ''model'') ''model.pickle'' Map.empty
     = (Inl ValueError, Map.empty)
   \<and> snd (serialize_model (\<lambda>m :: nat. Inr [m]) (Model_instance 7 :: (nat, string) pyobject)
             ''model.pickle'' Map.empty) ''model.pickle'' = Some [7]"
proof -
  have "\<forall>m :: nat. (Other_object ''model'' :: (nat, string) pyobject) \<noteq> Model_instance m" by simp
  then show ?thesis
    using serialize_model_rejects_non_model
            [of "Other_object ''model''" "\<lambda>m :: nat. Inr [m]" "''model.pickle''" Map.empty]
    by (simp add: serialize_model_def)
qed

end
